theory Spec2Isabelle
  imports Complex_Main "HOL-Library.Word" "HOL-Library.Sublist"
begin

unbundle bit_operations_syntax

section \<open>The Gemini service adapter (ufo/llm/gemini.py)\<close>

text \<open>
  The theory embeds the four methods of \<^verbatim>\<open>GeminiService\<close>: \<^verbatim>\<open>chat_completion\<close>,
  \<^verbatim>\<open>process_messages\<close>, \<^verbatim>\<open>base64_to_blob\<close> and \<^verbatim>\<open>get_text_from_all_candidates\<close>.
  Exceptions are values of the type \<open>error\<close>; a method that can raise returns
  \<open>error + 'a\<close> with \<open>Inl\<close> for the exception. Diagnostics written with
  \<^verbatim>\<open>print\<close> do not change any returned value and are left out.
\<close>

subsection \<open>Exceptions\<close>

datatype error =
    KeyError string
  | TypeError
  | AttributeError
  | ValueError string
  | BinasciiError
  | TransportFailure string

subsection \<open>The pattern of \<^verbatim>\<open>re.match\<close> in \<^verbatim>\<open>base64_to_blob\<close>\<close>

text \<open>
  The pattern is
  \<^verbatim>\<open>data:(?P<mime_type>image/.+?);base64,(?P<base64_string>.+)\<close>,
  matched at the start of the string. The dot matches every character but the newline.
\<close>

definition dot :: "char \<Rightarrow> bool" where
  "dot c \<longleftrightarrow> c \<noteq> CHR 0x0A"

text \<open>\<open>strip_prefix p s\<close> matches the literal \<open>p\<close> at the start of \<open>s\<close> and gives the rest.\<close>

fun strip_prefix :: "string \<Rightarrow> string \<Rightarrow> string option" where
  "strip_prefix [] s = Some s"
| "strip_prefix (p # ps) [] = None"
| "strip_prefix (p # ps) (c # cs) = (if p = c then strip_prefix ps cs else None)"

text \<open>
  The end of the pattern, \<^verbatim>\<open>;base64,(?P<base64_string>.+)\<close>: the literal marker, then
  the greedy group, which takes the longest run of characters the dot matches and needs
  one at least.
\<close>

definition match_tail :: "string \<Rightarrow> string option" where
  "match_tail s =
     (case strip_prefix '';base64,'' s of
        None \<Rightarrow> None
      | Some r \<Rightarrow> (case takeWhile dot r of [] \<Rightarrow> None | p # ps \<Rightarrow> Some (p # ps)))"

text \<open>
  The lazy group \<^verbatim>\<open>.+?\<close>: it takes one character, then tries the end of the pattern,
  and takes one more character each time the end does not match. \<open>acc\<close> is what the
  group has taken so far.
\<close>

fun match_lazy :: "string \<Rightarrow> string \<Rightarrow> (string \<times> string) option" where
  "match_lazy acc [] = None"
| "match_lazy acc (c # cs) =
     (if \<not> dot c then None
      else (case match_tail cs of
              Some p \<Rightarrow> Some (acc @ [c], p)
            | None \<Rightarrow> match_lazy (acc @ [c]) cs))"

text \<open>The whole match: the groups \<open>mime_type\<close> and \<open>base64_string\<close>, or \<open>None\<close>.\<close>

definition re_match :: "string \<Rightarrow> (string \<times> string) option" where
  "re_match s =
     (case strip_prefix ''data:image/'' s of
        None \<Rightarrow> None
      | Some r \<Rightarrow>
          (case match_lazy [] r of
             None \<Rightarrow> None
           | Some (sub, p) \<Rightarrow> Some (''image/'' @ sub, p)))"

subsection \<open>\<^verbatim>\<open>base64.b64decode\<close> of the Python standard library\<close>

type_synonym byte = "8 word"

text \<open>
  The decoding table of \<^verbatim>\<open>binascii\<close>: the value of a character of the standard
  alphabet, \<open>None\<close> for every other character.
\<close>

definition table_a2b_base64 :: "char \<Rightarrow> byte option" where
  "table_a2b_base64 c =
     (let n = (of_char c :: nat) in
      if 65 \<le> n \<and> n \<le> 90 then Some (of_nat (n - 65))
      else if 97 \<le> n \<and> n \<le> 122 then Some (of_nat (n - 71))
      else if 48 \<le> n \<and> n \<le> 57 then Some (of_nat (n + 4))
      else if n = 43 then Some 62
      else if n = 47 then Some 63
      else None)"

text \<open>
  \<^verbatim>\<open>binascii.a2b_base64\<close> without strict mode, which \<^verbatim>\<open>b64decode\<close> calls when
  \<^verbatim>\<open>validate\<close> is false: characters outside the alphabet are skipped, a complete
  padding ends the decoding, and input that ends inside a group of four raises
  \<^verbatim>\<open>binascii.Error\<close>. The state is the position in the group (\<open>quad_pos\<close>), the bits
  left over from the last character (\<open>leftchar\<close>), the padding characters seen
  (\<open>pads\<close>) and the bytes written.
\<close>

fun a2b_base64 :: "nat \<Rightarrow> byte \<Rightarrow> nat \<Rightarrow> byte list \<Rightarrow> string \<Rightarrow> error + byte list" where
  "a2b_base64 quad_pos leftchar pads bin_data [] =
     (if quad_pos \<noteq> 0 then Inl BinasciiError else Inr bin_data)"
| "a2b_base64 quad_pos leftchar pads bin_data (c # cs) =
     (if c = CHR ''='' then
        (if quad_pos \<ge> 2 \<and> quad_pos + (pads + 1) \<ge> 4 then Inr bin_data
         else a2b_base64 quad_pos leftchar (if quad_pos \<ge> 2 then pads + 1 else pads) bin_data cs)
      else
        (case table_a2b_base64 c of
           None \<Rightarrow> a2b_base64 quad_pos leftchar pads bin_data cs
         | Some this_ch \<Rightarrow>
             (if quad_pos = 0 then a2b_base64 1 this_ch 0 bin_data cs
              else if quad_pos = 1 then
                a2b_base64 2 (this_ch AND 0x0f) 0
                  (bin_data @ [push_bit 2 leftchar OR drop_bit 4 this_ch]) cs
              else if quad_pos = 2 then
                a2b_base64 3 (this_ch AND 0x03) 0
                  (bin_data @ [push_bit 4 leftchar OR drop_bit 2 this_ch]) cs
              else
                a2b_base64 0 0 0 (bin_data @ [push_bit 6 leftchar OR this_ch]) cs)))"

text \<open>
  \<^verbatim>\<open>b64decode\<close> of a \<^verbatim>\<open>str\<close>: the string is encoded as ASCII first, which raises
  \<^verbatim>\<open>ValueError\<close> on any other character.
\<close>

definition b64decode :: "string \<Rightarrow> error + byte list" where
  "b64decode s =
     (if \<exists>c \<in> set s. (of_char c :: nat) \<ge> 128
      then Inl (ValueError ''string argument should contain only ASCII characters'')
      else a2b_base64 0 0 0 [] s)"

subsection \<open>\<^verbatim>\<open>base64_to_blob\<close>\<close>

record blob =
  mime_type :: string
  data :: "byte list"

definition base64_to_blob :: "string \<Rightarrow> error + blob" where
  "base64_to_blob base64_str =
     (case re_match base64_str of
        None \<Rightarrow> Inl (ValueError ''Invalid data URL format.'')
      | Some (m, base64_string) \<Rightarrow>
          (case b64decode base64_string of
             Inl e \<Rightarrow> Inl e
           | Inr d \<Rightarrow> Inr \<lparr>mime_type = m, data = d\<rparr>))"


subsection \<open>Standard base64 encoding and data URLs\<close>

text \<open>
  The encoder is not part of the adapter: it is the standard base64 encoding (RFC 4648)
  that a caller uses to build a data URL, stated here to express the round trip. Three
  bytes give four values of six bits; a last group of one or two bytes is filled with
  zero bits and padded with \<open>=\<close>.
\<close>

definition table_b2a_base64 :: "byte \<Rightarrow> char" where
  "table_b2a_base64 i =
     (let n = unat i in
      if n < 26 then char_of (n + 65)
      else if n < 52 then char_of (n + 71)
      else if n < 62 then char_of (n - 4)
      else if n = 62 then CHR ''+''
      else CHR ''/'')"

definition quad :: "byte \<Rightarrow> byte \<Rightarrow> byte \<Rightarrow> byte list" where
  "quad a b c =
     [drop_bit 2 a,
      push_bit 4 (a AND 3) OR drop_bit 4 b,
      push_bit 2 (b AND 15) OR drop_bit 6 c,
      c AND 63]"

fun b64encode :: "byte list \<Rightarrow> string" where
  "b64encode [] = []"
| "b64encode [a] = map table_b2a_base64 (take 2 (quad a 0 0)) @ ''==''"
| "b64encode [a, b] = map table_b2a_base64 (take 3 (quad a b 0)) @ ''=''"
| "b64encode (a # b # c # bs) = map table_b2a_base64 (quad a b c) @ b64encode bs"

definition data_url :: "string \<Rightarrow> byte list \<Rightarrow> string" where
  "data_url mime b = ''data:'' @ mime @ '';base64,'' @ b64encode b"

text \<open>
  The pattern in the words of the specification: \<^verbatim>\<open>data:<mime-type>;base64,<payload>\<close>
  with a mime type that starts with \<^verbatim>\<open>image/\<close>.
\<close>

definition spec_data_url :: "string \<Rightarrow> bool" where
  "spec_data_url url \<longleftrightarrow>
     (\<exists>rest payload. url = ''data:'' @ (''image/'' @ rest) @ '';base64,'' @ payload)"

subsection \<open>Messages and \<^verbatim>\<open>process_messages\<close>\<close>

text \<open>
  A content part is a dictionary; the record holds the keys the code reads, \<open>None\<close>
  for a key that is absent: \<^verbatim>\<open>content["type"]\<close>, \<^verbatim>\<open>content["text"]\<close> and
  \<^verbatim>\<open>content["image_url"]["url"]\<close>. Reading an absent key raises \<^verbatim>\<open>KeyError\<close>; for
  the nested lookup the model names the outer key, whichever of the two is absent.
\<close>

record content_part =
  part_type :: "string option"
  part_text :: "string option"
  part_image_url :: "string option"

text \<open>The content of a message is a string or a list of parts.\<close>

datatype content = Str string | Parts "content_part list"

text \<open>
  A message is a dictionary with the key \<^verbatim>\<open>role\<close>; \<^verbatim>\<open>content\<close> is \<open>None\<close> when
  the key is absent (\<^verbatim>\<open>chat_completion\<close> reads it with \<^verbatim>\<open>get\<close> and a default).
\<close>

record message =
  role :: string
  content :: "content option"

text \<open>
  The argument \<^verbatim>\<open>messages\<close> is one bare message (a \<^verbatim>\<open>dict\<close>) or a list of messages.
\<close>

datatype messages = Bare message | Listed "message list"

text \<open>An element of the translated prompt: a string or an image.\<close>

datatype prompt = PText string | PBlob blob

text \<open>
  The formatted string of line 108 puts \<^verbatim>\<open>str(message['content'])\<close> after the label.
  For a string that is the string itself; for a list of parts it is Python's rendering of
  a list of dictionaries, a built-in that is taken as the parameter \<open>str_of\<close>.
\<close>

definition format_content :: "(content_part list \<Rightarrow> string) \<Rightarrow> content \<Rightarrow> string" where
  "format_content str_of c = (case c of Str s \<Rightarrow> s | Parts ps \<Rightarrow> str_of ps)"

text \<open>
  The inner loop of \<^verbatim>\<open>process_messages\<close> over the parts of one message;
  \<open>prompt_contents\<close> is the list the loop appends to.
\<close>

fun process_parts :: "content_part list \<Rightarrow> prompt list \<Rightarrow> error + prompt list" where
  "process_parts [] prompt_contents = Inr prompt_contents"
| "process_parts (c # cs) prompt_contents =
     (case part_type c of
        None \<Rightarrow> Inl (KeyError ''type'')
      | Some t \<Rightarrow>
          if t = ''text'' then
            (case part_text c of
               None \<Rightarrow> Inl (KeyError ''text'')
             | Some s \<Rightarrow> process_parts cs (prompt_contents @ [PText s]))
          else if t = ''image_url'' then
            (case part_image_url c of
               None \<Rightarrow> Inl (KeyError ''image_url'')
             | Some u \<Rightarrow>
                 (case base64_to_blob u of
                    Inl e \<Rightarrow> Inl e
                  | Inr b \<Rightarrow> process_parts cs (prompt_contents @ [PBlob b])))
          else process_parts cs prompt_contents)"

text \<open>
  The outer loop. A message that is not a system message has its content iterated: a
  list of parts goes through the inner loop; a string is iterated character by
  character, and indexing a character with \<^verbatim>\<open>"type"\<close> raises \<^verbatim>\<open>TypeError\<close>, so only
  the empty string passes.
\<close>

fun process_message_list ::
  "(content_part list \<Rightarrow> string) \<Rightarrow> message list \<Rightarrow> prompt list \<Rightarrow> error + prompt list" where
  "process_message_list str_of [] prompt_contents = Inr prompt_contents"
| "process_message_list str_of (m # ms) prompt_contents =
     (if role m = ''system'' then
        (case content m of
           None \<Rightarrow> Inl (KeyError ''content'')
         | Some c \<Rightarrow>
             process_message_list str_of ms
               (prompt_contents @ [PText (''Your general instruction: '' @ format_content str_of c)]))
      else
        (case content m of
           None \<Rightarrow> Inl (KeyError ''content'')
         | Some (Str s) \<Rightarrow>
             if s = [] then process_message_list str_of ms prompt_contents else Inl TypeError
         | Some (Parts ps) \<Rightarrow>
             (case process_parts ps prompt_contents of
                Inl e \<Rightarrow> Inl e
              | Inr prompt_contents' \<Rightarrow> process_message_list str_of ms prompt_contents')))"

definition process_messages ::
  "(content_part list \<Rightarrow> string) \<Rightarrow> messages \<Rightarrow> error + prompt list" where
  "process_messages str_of msgs =
     process_message_list str_of (case msgs of Bare m \<Rightarrow> [m] | Listed ms \<Rightarrow> ms) []"

subsection \<open>Responses and \<^verbatim>\<open>get_text_from_all_candidates\<close>\<close>

text \<open>
  The response comes from the provider's library and is typed \<^verbatim>\<open>Any\<close>; the types
  below hold what the code asks of it. An attribute that the code tests with
  \<^verbatim>\<open>hasattr\<close> and then iterates is absent (\<open>NoAttr\<close>), present with the value
  \<^verbatim>\<open>None\<close> or another value that cannot be iterated (\<open>NoneValue\<close>), or present with
  a list (\<open>Value\<close>). \<^verbatim>\<open>hasattr\<close> is true in the last two cases.
\<close>

datatype 'a attribute = NoAttr | NoneValue | Value 'a

text \<open>
  Of a part that has a \<^verbatim>\<open>__dict__\<close>: the items of \<^verbatim>\<open>part.__dict__\<close> (the name of the
  field and whether its value is not \<^verbatim>\<open>None\<close>), its text (\<open>Some s\<close> when the part
  has an attribute \<^verbatim>\<open>text\<close> that is a string) and whether it has a true attribute
  \<^verbatim>\<open>thought\<close>. In a list of parts \<open>None\<close> is an object without \<^verbatim>\<open>__dict__\<close>, such
  as \<^verbatim>\<open>None\<close> itself: line 167 raises \<^verbatim>\<open>AttributeError\<close> on it.
\<close>

record response_part =
  dict_items :: "(string \<times> bool) list"
  text_attr :: "string option"
  thought :: bool

text \<open>
  In the list of candidates \<open>None\<close> is a candidate that is false as a condition. The
  accessor \<^verbatim>\<open>response.text\<close> belongs to the provider's library and may raise; its
  result is a field of the response.
\<close>

record candidate_content =
  parts :: "response_part option list attribute"

record candidate =
  content_attr :: "candidate_content attribute"

record response =
  candidates :: "candidate option list attribute"
  text_accessor :: "error + string"

text \<open>The loop over \<^verbatim>\<open>part.__dict__.items()\<close>, collecting the names of other fields.\<close>

fun scan_fields :: "(string \<times> bool) list \<Rightarrow> string list \<Rightarrow> string list" where
  "scan_fields [] non_text_parts_found = non_text_parts_found"
| "scan_fields ((field_name, not_none) # fs) non_text_parts_found =
     scan_fields fs
       (if not_none \<and> field_name \<notin> {''text'', ''thought''}
           \<and> field_name \<notin> set non_text_parts_found
        then non_text_parts_found @ [field_name] else non_text_parts_found)"

text \<open>
  The loop over the parts of one candidate, with its three variables; a part flagged
  as a thought is passed over by \<^verbatim>\<open>continue\<close>. Reading \<^verbatim>\<open>__dict__\<close> is the first
  statement of the body and is not guarded.
\<close>

fun scan_parts ::
  "response_part option list \<Rightarrow> string \<Rightarrow> bool \<Rightarrow> string list
     \<Rightarrow> error + (string \<times> bool \<times> string list)" where
  "scan_parts [] candidate_text any_text_part_found non_text_parts_found =
     Inr (candidate_text, any_text_part_found, non_text_parts_found)"
| "scan_parts (None # ps) candidate_text any_text_part_found non_text_parts_found =
     Inl AttributeError"
| "scan_parts (Some p # ps) candidate_text any_text_part_found non_text_parts_found =
     (let non_text_parts_found' = scan_fields (dict_items p) non_text_parts_found in
      case text_attr p of
        None \<Rightarrow> scan_parts ps candidate_text any_text_part_found non_text_parts_found'
      | Some t \<Rightarrow>
          if thought p
          then scan_parts ps candidate_text any_text_part_found non_text_parts_found'
          else scan_parts ps (candidate_text @ t) True non_text_parts_found')"

text \<open>
  The body of the loop over the candidates: what is appended for one candidate. The
  guard of line 160 asks whether the candidate is true, has an attribute \<^verbatim>\<open>content\<close>
  and whether that content has an attribute \<^verbatim>\<open>parts\<close> (\<^verbatim>\<open>None\<close> has none); line 165
  then iterates the parts, which raises \<^verbatim>\<open>TypeError\<close> when they are \<^verbatim>\<open>None\<close>.
\<close>

definition candidate_result :: "candidate option \<Rightarrow> error + string option" where
  "candidate_result candidate =
     (case candidate of
        None \<Rightarrow> Inr None
      | Some c \<Rightarrow>
          (case content_attr c of
             NoAttr \<Rightarrow> Inr None
           | NoneValue \<Rightarrow> Inr None
           | Value cc \<Rightarrow>
               (case parts cc of
                  NoAttr \<Rightarrow> Inr None
                | NoneValue \<Rightarrow> Inl TypeError
                | Value ps \<Rightarrow>
                    (case scan_parts ps [] False [] of
                       Inl e \<Rightarrow> Inl e
                     | Inr (candidate_text, any_text_part_found, _) \<Rightarrow>
                         Inr (if any_text_part_found then Some candidate_text else None)))))"

fun candidates_loop ::
  "candidate option list \<Rightarrow> string option list \<Rightarrow> error + string option list" where
  "candidates_loop [] all_texts = Inr all_texts"
| "candidates_loop (c # cs) all_texts =
     (case candidate_result c of
        Inl e \<Rightarrow> Inl e
      | Inr entry \<Rightarrow> candidates_loop cs (all_texts @ [entry]))"

text \<open>
  Line 151 returns the empty list when the response is false or has no attribute
  \<^verbatim>\<open>candidates\<close>; line 155 iterates the attribute, which raises \<^verbatim>\<open>TypeError\<close> when
  it is \<^verbatim>\<open>None\<close>.
\<close>

definition get_text_from_all_candidates :: "response option \<Rightarrow> error + string option list" where
  "get_text_from_all_candidates resp =
     (case resp of
        None \<Rightarrow> Inr []
      | Some r \<Rightarrow>
          (case candidates r of
             NoAttr \<Rightarrow> Inr []
           | NoneValue \<Rightarrow> Inl TypeError
           | Value cs \<Rightarrow> candidates_loop cs []))"

subsection \<open>The cost estimate\<close>

text \<open>
  \<^verbatim>\<open>str.split()\<close> without arguments: the words between runs of whitespace. The
  whitespace characters are those of \<^verbatim>\<open>str.isspace\<close> below code point 256.
\<close>

definition isspace :: "char \<Rightarrow> bool" where
  "isspace c \<longleftrightarrow> (of_char c :: nat) \<in> {9, 10, 11, 12, 13, 28, 29, 30, 31, 32, 133, 160}"

fun split_loop :: "string \<Rightarrow> string \<Rightarrow> string list" where
  "split_loop w [] = (if w = [] then [] else [w])"
| "split_loop w (c # cs) =
     (if isspace c then (if w = [] then split_loop [] cs else w # split_loop [] cs)
      else split_loop (w @ [c]) cs)"

definition split :: "string \<Rightarrow> string list" where
  "split s = split_loop [] s"

text \<open>
  Line 84: \<^verbatim>\<open>sum(len(msg.get("content", "").split()) for msg in messages)\<close>. A list of
  parts has no method \<^verbatim>\<open>split\<close>, which raises \<^verbatim>\<open>AttributeError\<close>. Iterating a bare
  message gives its keys, which are strings and have no method \<^verbatim>\<open>get\<close>.
\<close>

fun input_tokens_list :: "message list \<Rightarrow> error + nat" where
  "input_tokens_list [] = Inr 0"
| "input_tokens_list (msg # ms) =
     (case (case content msg of
              None \<Rightarrow> Inr (length (split []))
            | Some (Str s) \<Rightarrow> Inr (length (split s))
            | Some (Parts ps) \<Rightarrow> Inl AttributeError) of
        Inl e \<Rightarrow> Inl e
      | Inr k \<Rightarrow> (case input_tokens_list ms of Inl e \<Rightarrow> Inl e | Inr rest \<Rightarrow> Inr (k + rest)))"

definition count_input_tokens :: "messages \<Rightarrow> error + nat" where
  "count_input_tokens msgs =
     (case msgs of Bare m \<Rightarrow> Inl AttributeError | Listed ms \<Rightarrow> input_tokens_list ms)"

record model_cost =
  input_cost :: "real option"
  output_cost :: "real option"

text \<open>
  The configuration: the keys read by \<^verbatim>\<open>chat_completion\<close>. The two optional keys are
  read with \<^verbatim>\<open>get\<close> and a default, \<open>None\<close> is the absent key. Python's floats are
  modelled as real numbers.
\<close>

record config =
  MAX_TOKENS :: int
  TEMPERATURE :: real
  TOP_P :: real
  ENABLE_COST_TRACKING :: "bool option"
  MODEL_COSTS :: "(string \<rightharpoonup> model_cost) option"

record genai_config =
  max_output_tokens :: int
  temperature :: real
  top_p :: real

text \<open>
  The service: its configuration, the name of the model and the model handle, whose
  method \<^verbatim>\<open>generate_content\<close> is the remote call.
\<close>

record service =
  config :: config
  model_name :: string
  generate_content :: "prompt list \<Rightarrow> genai_config \<Rightarrow> error + response"

text \<open>\<^verbatim>\<open>model_costs.get(model_name, {}).get(key, 0.0)\<close> for one of the two keys.\<close>

definition unit_cost :: "(model_cost \<Rightarrow> real option) \<Rightarrow> service \<Rightarrow> real" where
  "unit_cost key self =
     (case MODEL_COSTS (config self) of
        None \<Rightarrow> 0
      | Some model_costs \<Rightarrow>
          (case model_costs (model_name self) of
             None \<Rightarrow> 0
           | Some entry \<Rightarrow> (case key entry of None \<Rightarrow> 0 | Some c \<Rightarrow> c)))"

text \<open>Lines 78 to 88.\<close>

definition cost_estimate :: "service \<Rightarrow> messages \<Rightarrow> response \<Rightarrow> error + real" where
  "cost_estimate self msgs resp =
     (case count_input_tokens msgs of
        Inl e \<Rightarrow> Inl e
      | Inr input_tokens \<Rightarrow>
          (case text_accessor resp of
             Inl e \<Rightarrow> Inl e
           | Inr t \<Rightarrow>
               Inr (real input_tokens * unit_cost input_cost self
                    + real (length (split t)) * unit_cost output_cost self)))"

subsection \<open>\<^verbatim>\<open>chat_completion\<close>\<close>

text \<open>
  The handler of the \<^verbatim>\<open>try\<close> block prints the exception and raises it again, so an
  error of any step is the error of the call.
\<close>

definition chat_completion ::
  "(content_part list \<Rightarrow> string) \<Rightarrow> service \<Rightarrow> messages \<Rightarrow> int \<Rightarrow> real option \<Rightarrow> int option
     \<Rightarrow> real option \<Rightarrow> 'kwargs \<Rightarrow> error + (string option list \<times> real)" where
  "chat_completion str_of self msgs n temperature_arg max_tokens top_p_arg kwargs =
     (case process_messages str_of msgs of
        Inl e \<Rightarrow> Inl e
      | Inr gemini_messages \<Rightarrow>
          (let genai_config =
                 \<lparr>max_output_tokens =
                    (case max_tokens of Some v \<Rightarrow> v | None \<Rightarrow> MAX_TOKENS (config self)),
                  temperature =
                    (case temperature_arg of Some v \<Rightarrow> v | None \<Rightarrow> TEMPERATURE (config self)),
                  top_p = (case top_p_arg of Some v \<Rightarrow> v | None \<Rightarrow> TOP_P (config self))\<rparr>
           in case generate_content self gemini_messages genai_config of
                Inl e \<Rightarrow> Inl e
              | Inr resp \<Rightarrow>
                  (case (if ENABLE_COST_TRACKING (config self) = Some True
                         then cost_estimate self msgs resp else Inr 0) of
                     Inl e \<Rightarrow> Inl e
                   | Inr cost \<Rightarrow>
                       (case get_text_from_all_candidates (Some resp) of
                          Inl e \<Rightarrow> Inl e
                        | Inr texts \<Rightarrow> Inr (texts, cost)))))"

subsection \<open>Specification-side notions for the translator\<close>

text \<open>
  A message list with plain text only, in the words of the data model: a system message
  has a string as content, any other message a list of parts that are all text parts.
\<close>

definition text_part :: "content_part \<Rightarrow> bool" where
  "text_part p \<longleftrightarrow> part_type p = Some ''text'' \<and> part_text p \<noteq> None"

definition text_only :: "message \<Rightarrow> bool" where
  "text_only m =
     (case content m of
        None \<Rightarrow> False
      | Some (Str x) \<Rightarrow> role m = ''system''
      | Some (Parts ps) \<Rightarrow> role m \<noteq> ''system'' \<and> list_all text_part ps)"

text \<open>The entries a message contributes to the flattening.\<close>

definition part_entries :: "content_part \<Rightarrow> prompt list" where
  "part_entries p = (case part_text p of None \<Rightarrow> [] | Some s \<Rightarrow> [PText s])"

definition flat_entries :: "message \<Rightarrow> prompt list" where
  "flat_entries m =
     (case content m of
        None \<Rightarrow> []
      | Some (Str x) \<Rightarrow> [PText (''Your general instruction: '' @ x)]
      | Some (Parts ps) \<Rightarrow> concat (map part_entries ps))"

text \<open>A part whose type is neither \<^verbatim>\<open>text\<close> nor \<^verbatim>\<open>image_url\<close>.\<close>

definition other_part :: "content_part \<Rightarrow> bool" where
  "other_part p =
     (case part_type p of None \<Rightarrow> False | Some t \<Rightarrow> t \<noteq> ''text'' \<and> t \<noteq> ''image_url'')"

text \<open>A message without the other parts, when it is not a system message.\<close>

definition without_other_parts :: "message \<Rightarrow> message" where
  "without_other_parts m =
     (if role m = ''system'' then m
      else (case content m of
              Some (Parts ps) \<Rightarrow> m\<lparr>content := Some (Parts (filter (\<lambda>p. \<not> other_part p) ps))\<rparr>
            | _ \<Rightarrow> m))"



text \<open>A candidate that is absent or lacks the nested content and parts.\<close>

definition malformed :: "candidate option \<Rightarrow> bool" where
  "malformed c =
     (case c of
        None \<Rightarrow> True
      | Some cand \<Rightarrow>
          (case content_attr cand of
             NoAttr \<Rightarrow> True
           | NoneValue \<Rightarrow> True
           | Value cc \<Rightarrow> parts cc = NoAttr))"

text \<open>
  A candidate whose parts can be iterated: its attribute \<^verbatim>\<open>parts\<close>, when it is there,
  is a list, and every part in it has a \<^verbatim>\<open>__dict__\<close>.
\<close>

definition iterable_parts :: "candidate option \<Rightarrow> bool" where
  "iterable_parts c =
     (case c of
        None \<Rightarrow> True
      | Some cand \<Rightarrow>
          (case content_attr cand of
             NoAttr \<Rightarrow> True
           | NoneValue \<Rightarrow> True
           | Value cc \<Rightarrow>
               (case parts cc of
                  NoAttr \<Rightarrow> True
                | NoneValue \<Rightarrow> False
                | Value ps \<Rightarrow> list_all (\<lambda>p. p \<noteq> None) ps)))"

section \<open>Base64: decoding an encoding\<close>

lemma m3: "(3::byte) = mask 2" and m15: "(15::byte) = mask 4" and m63: "(63::byte) = mask 6"
  by (simp_all add: mask_eq_exp_minus_1)

lemma SS: "Suc (Suc (n - 2)) = (if 2 \<le> n then n else 2)"
  "(k::nat) + (n - k) = (if k \<le> n then n else k)"
  by auto

lemma b1: "push_bit 2 (drop_bit 2 a) OR drop_bit 4 (push_bit 4 (a AND 3) OR drop_bit 4 b) = (a::byte)"
  unfolding m3 m15 m63
  by (rule bit_word_eqI) (auto simp add: bit_simps SS split: if_splits)

lemma b2: "push_bit 4 ((push_bit 4 (a AND 3) OR drop_bit 4 b) AND 15) OR drop_bit 2 (push_bit 2 (b AND 15) OR drop_bit 6 c) = (b::byte)"
  unfolding m3 m15 m63
  by (rule bit_word_eqI) (auto simp add: bit_simps SS split: if_splits)

lemma b3: "push_bit 6 ((push_bit 2 (b AND 15) OR drop_bit 6 c) AND 3) OR (c AND 63) = (c::byte)"
  unfolding m3 m15 m63
  by (rule bit_word_eqI) (auto simp add: bit_simps SS split: if_splits)

lemma sextet_bound: "x AND 63 = x \<Longrightarrow> unat (x::byte) < 64"
proof -
  assume h: "x AND 63 = x"
  have "unat (x AND 63) \<le> unat (63 :: byte)"
    by (rule word_and_le1 [THEN word_le_nat_alt [THEN iffD1]])
  then show ?thesis using h by simp
qed

lemma s0: "unat (drop_bit 2 (a::byte)) < 64"
  apply (rule sextet_bound)
  unfolding m3 m15 m63
  by (rule bit_word_eqI) (auto simp add: bit_simps SS split: if_splits dest: bit_imp_le_length)

lemma s1: "unat (push_bit 4 (a AND 3) OR drop_bit 4 (b::byte)) < 64"
  apply (rule sextet_bound)
  unfolding m3 m15 m63
  by (rule bit_word_eqI) (auto simp add: bit_simps SS split: if_splits dest: bit_imp_le_length)

lemma s2: "unat (push_bit 2 (b AND 15) OR drop_bit 6 (c::byte)) < 64"
  apply (rule sextet_bound)
  unfolding m3 m15 m63
  by (rule bit_word_eqI) (auto simp add: bit_simps SS split: if_splits dest: bit_imp_le_length)

lemma s3: "unat (c AND 63 :: byte) < 64"
  apply (rule sextet_bound)
  unfolding m3 m15 m63
  by (rule bit_word_eqI) (auto simp add: bit_simps SS split: if_splits dest: bit_imp_le_length)

lemma quad_sextets:
  "\<exists>s0 s1 s2 s3. quad a b c = [s0, s1, s2, s3]
     \<and> unat s0 < 64 \<and> unat s1 < 64 \<and> unat s2 < 64 \<and> unat s3 < 64
     \<and> push_bit 2 s0 OR drop_bit 4 s1 = a
     \<and> push_bit 4 (s1 AND 15) OR drop_bit 2 s2 = b
     \<and> push_bit 6 (s2 AND 3) OR s3 = c"
  unfolding quad_def using b1 b2 b3 s0 s1 s2 s3 by blast


lemma a2b_b2a: "unat i < 64 \<Longrightarrow> table_a2b_base64 (table_b2a_base64 i) = Some i"
  apply (auto simp add: table_a2b_base64_def table_b2a_base64_def Let_def)
  apply (simp_all add: word_unat_eq_iff)
  done

lemma of_char_b2a:
  "(of_char (table_b2a_base64 i) :: nat) =
     (let n = unat i in
      if n < 26 then n + 65 else if n < 52 then n + 71 else if n < 62 then n - 4
      else if n = 62 then 43 else 47)"
  by (simp add: table_b2a_base64_def Let_def)

lemma b2a_char:
  "table_b2a_base64 i \<noteq> CHR ''=''"
  "dot (table_b2a_base64 i)"
  "(of_char (table_b2a_base64 i) :: nat) < 128"
proof -
  have "(of_char (table_b2a_base64 i) :: nat) \<noteq> of_char (CHR ''='')"
    by (auto simp add: of_char_b2a Let_def)
  then show "table_b2a_base64 i \<noteq> CHR ''=''" by metis
  have "(of_char (table_b2a_base64 i) :: nat) \<noteq> of_char (CHR 0x0A)"
    by (auto simp add: of_char_b2a Let_def)
  then show "dot (table_b2a_base64 i)" unfolding dot_def by metis
  show "(of_char (table_b2a_base64 i) :: nat) < 128"
    by (auto simp add: of_char_b2a Let_def)
qed

lemma a2b_step:
  assumes "unat i < 64"
  shows "a2b_base64 q l p out (table_b2a_base64 i # cs) =
     (if q = 0 then a2b_base64 1 i 0 out cs
      else if q = 1 then a2b_base64 2 (i AND 0x0f) 0 (out @ [push_bit 2 l OR drop_bit 4 i]) cs
      else if q = 2 then a2b_base64 3 (i AND 0x03) 0 (out @ [push_bit 4 l OR drop_bit 2 i]) cs
      else a2b_base64 0 0 0 (out @ [push_bit 6 l OR i]) cs)"
  using assms by (simp add: a2b_b2a b2a_char)

lemma a2b_pad:
  "a2b_base64 q l p out (CHR ''='' # cs) =
     (if q \<ge> 2 \<and> q + (p + 1) \<ge> 4 then Inr out
      else a2b_base64 q l (if q \<ge> 2 then p + 1 else p) out cs)"
  by simp

lemmas a2b_sim = a2b_step a2b_pad a2b_base64.simps(1)

lemma a2b_b64encode: "a2b_base64 0 l p out (b64encode bs) = Inr (out @ bs)"
proof (induction bs arbitrary: l p out rule: b64encode.induct)
  case 1
  then show ?case by simp
next
  case (2 a)
  obtain s0 s1 s2 s3 where q: "quad a 0 0 = [s0, s1, s2, s3]"
    and bd: "unat s0 < 64" "unat s1 < 64"
    and by1: "push_bit 2 s0 OR drop_bit 4 s1 = a"
    using quad_sextets [of a 0 0] by blast
  show ?case using by1 by (simp del: a2b_base64.simps add: q a2b_sim bd)
next
  case (3 a b)
  obtain s0 s1 s2 s3 where q: "quad a b 0 = [s0, s1, s2, s3]"
    and bd: "unat s0 < 64" "unat s1 < 64" "unat s2 < 64"
    and by1: "push_bit 2 s0 OR drop_bit 4 s1 = a"
    and by2: "push_bit 4 (s1 AND 15) OR drop_bit 2 s2 = b"
    using quad_sextets [of a b 0] by blast
  show ?case using by1 by2 by (simp del: a2b_base64.simps add: q a2b_sim bd)
next
  case (4 a b c bs)
  obtain s0 s1 s2 s3 where q: "quad a b c = [s0, s1, s2, s3]"
    and bd: "unat s0 < 64" "unat s1 < 64" "unat s2 < 64" "unat s3 < 64"
    and by1: "push_bit 2 s0 OR drop_bit 4 s1 = a"
    and by2: "push_bit 4 (s1 AND 15) OR drop_bit 2 s2 = b"
    and by3: "push_bit 6 (s2 AND 3) OR s3 = c"
    using quad_sextets [of a b c] by blast
  show ?case using by1 by2 by3 by (simp del: a2b_base64.simps add: q a2b_sim bd "4.IH")
qed

lemma b64encode_chars:
  "c \<in> set (b64encode bs) \<Longrightarrow> dot c \<and> (of_char c :: nat) < 128"
proof (induction bs rule: b64encode.induct)
  case 1
  then show ?case by simp
next
  case (2 a)
  obtain s0 s1 s2 s3 where q: "quad a 0 0 = [s0, s1, s2, s3]"
    and bd: "unat s0 < 64" "unat s1 < 64"
    using quad_sextets [of a 0 0] by blast
  from 2 show ?case using b2a_char [of s0] b2a_char [of s1] by (auto simp add: q dot_def)
next
  case (3 a b)
  obtain s0 s1 s2 s3 where q: "quad a b 0 = [s0, s1, s2, s3]"
    and bd: "unat s0 < 64" "unat s1 < 64" "unat s2 < 64"
    using quad_sextets [of a b 0] by blast
  from 3 show ?case using b2a_char [of s0] b2a_char [of s1] b2a_char [of s2] by (auto simp add: q dot_def)
next
  case (4 a b c bs)
  obtain s0 s1 s2 s3 where q: "quad a b c = [s0, s1, s2, s3]"
    and bd: "unat s0 < 64" "unat s1 < 64" "unat s2 < 64" "unat s3 < 64"
    using quad_sextets [of a b c] by blast
  from 4 show ?case using b2a_char [of s0] b2a_char [of s1] b2a_char [of s2] b2a_char [of s3] by (auto simp add: q dot_def)
qed

lemma b64encode_nonempty: "bs \<noteq> [] \<Longrightarrow> b64encode bs \<noteq> []"
  by (induction bs rule: b64encode.induct) (auto simp add: quad_def)

lemma b64decode_b64encode: "b64decode (b64encode bs) = Inr bs"
  using b64encode_chars [of _ bs] by (auto simp add: b64decode_def a2b_b64encode not_le)

section \<open>The pattern\<close>

lemma strip_prefix_Some: "strip_prefix p s = Some r \<longleftrightarrow> s = p @ r"
  by (induction p s rule: strip_prefix.induct) auto

lemma strip_prefix_append: "strip_prefix p (p @ s) = Some s"
  by (simp add: strip_prefix_Some)

lemma match_tail_marker:
  assumes "payload \<noteq> []" "\<forall>c \<in> set payload. dot c"
  shows "match_tail ('';base64,'' @ payload) = Some payload"
proof -
  have "takeWhile dot payload = payload" using assms(2) by simp
  then show ?thesis
    using assms(1) unfolding match_tail_def strip_prefix_append
    by (cases payload) simp_all
qed

lemma match_tail_Some: "match_tail s = Some p \<Longrightarrow> \<exists>r. s = '';base64,'' @ r"
  unfolding match_tail_def by (auto simp add: strip_prefix_Some split: option.splits)

lemma match_lazy_run:
  assumes "sub \<noteq> []" "\<forall>c \<in> set sub. dot c"
    and "\<forall>k. 0 < k \<and> k < length sub \<longrightarrow> match_tail (drop k sub @ rest) = None"
    and "match_tail rest = Some p"
  shows "match_lazy acc (sub @ rest) = Some (acc @ sub, p)"
  using assms
proof (induction sub arbitrary: acc)
  case Nil
  then show ?case by simp
next
  case (Cons c cs)
  show ?case
  proof (cases "cs = []")
    case True
    with Cons.prems show ?thesis by simp
  next
    case False
    have none: "match_tail (cs @ rest) = None"
      using Cons.prems(3) [rule_format, of 1] False by simp
    have shift: "\<forall>k. 0 < k \<and> k < length cs \<longrightarrow> match_tail (drop k cs @ rest) = None"
    proof (intro allI impI)
      fix k assume "0 < k \<and> k < length cs"
      then show "match_tail (drop k cs @ rest) = None"
        using Cons.prems(3) [rule_format, of "Suc k"] by simp
    qed
    have "match_lazy (acc @ [c]) (cs @ rest) = Some ((acc @ [c]) @ cs, p)"
      using Cons.IH [OF False _ shift Cons.prems(4)] Cons.prems(2) by simp
    then show ?thesis using Cons.prems(2) none by simp
  qed
qed

lemma no_early_letter:
  assumes "c \<notin> set t" "d @ c # x = t @ r"
  shows "length t \<le> length d"
proof (rule ccontr)
  assume "\<not> length t \<le> length d"
  then have lt: "length d < length t" by simp
  have "(d @ c # x) ! length d = c" by simp
  moreover have "(t @ r) ! length d = t ! length d" using lt by (simp add: nth_append)
  ultimately have "t ! length d = c" using assms(2) by simp
  then have "c \<in> set t" using lt nth_mem by metis
  then show False using assms(1) by simp
qed

lemma no_early_marker:
  assumes free: "\<not> (\<exists>u v. u \<noteq> [] \<and> sub = u @ '';base64,'' @ v)"
    and k: "0 < k" "k < length sub"
  shows "match_tail (drop k sub @ '';base64,'' @ payload) = None"
proof (rule ccontr)
  assume "match_tail (drop k sub @ '';base64,'' @ payload) \<noteq> None"
  then obtain r where eq: "drop k sub @ '';base64,'' @ payload = '';base64,'' @ r"
    using match_tail_Some by fastforce
  obtain d0 d where d: "drop k sub = d0 # d"
    using k(2) by (cases "drop k sub") auto
  from eq d have d0: "d0 = CHR '';''" and eq': "d @ CHR '';'' # (''base64,'' @ payload) = ''base64,'' @ r"
    by simp_all
  have "length ''base64,'' \<le> length d"
    by (rule no_early_letter [OF _ eq']) simp
  then have len: "7 \<le> length d" by simp
  have "take 7 (d @ CHR '';'' # (''base64,'' @ payload)) = take 7 (''base64,'' @ r)"
    using eq' by simp
  then have "take 7 d = ''base64,''" using len by simp
  then have "d = ''base64,'' @ drop 7 d" by (metis append_take_drop_id)
  then have "drop k sub = '';base64,'' @ drop 7 d" using d d0 by simp
  then have "sub = take k sub @ '';base64,'' @ drop 7 d" by (metis append_take_drop_id)
  moreover have "take k sub \<noteq> []" using k by auto
  ultimately show False using free by blast
qed

lemma re_match_data_url:
  assumes "sub \<noteq> []" "\<forall>c \<in> set sub. dot c"
    and "\<not> (\<exists>u v. u \<noteq> [] \<and> sub = u @ '';base64,'' @ v)"
    and "payload \<noteq> []" "\<forall>c \<in> set payload. dot c"
  shows "re_match (''data:'' @ (''image/'' @ sub) @ '';base64,'' @ payload)
           = Some (''image/'' @ sub, payload)"
proof -
  have sp: "strip_prefix ''data:image/'' (''data:'' @ (''image/'' @ sub) @ '';base64,'' @ payload)
              = Some (sub @ '';base64,'' @ payload)"
    by (simp add: strip_prefix_Some)
  have "match_lazy [] (sub @ '';base64,'' @ payload) = Some ([] @ sub, payload)"
    by (rule match_lazy_run [OF assms(1,2) _ match_tail_marker [OF assms(4,5)]])
       (use no_early_marker [OF assms(3)] in blast)
  then show ?thesis unfolding re_match_def sp by simp
qed


lemma match_lazy_Some:
  "match_lazy acc s = Some (m, p) \<Longrightarrow>
     \<exists>sub r. sub \<noteq> [] \<and> m = acc @ sub \<and> s = sub @ '';base64,'' @ r \<and> p \<noteq> []"
proof (induction s arbitrary: acc)
  case Nil
  then show ?case by simp
next
  case (Cons c cs)
  show ?case
  proof (cases "match_tail cs")
    case None
    with Cons.prems have "match_lazy (acc @ [c]) cs = Some (m, p)"
      by (simp split: if_splits)
    from Cons.IH [OF this] obtain sub r where
      "sub \<noteq> []" "m = (acc @ [c]) @ sub" "cs = sub @ '';base64,'' @ r" "p \<noteq> []"
      by blast
    then have "c # sub \<noteq> [] \<and> m = acc @ (c # sub) \<and> c # cs = (c # sub) @ '';base64,'' @ r \<and> p \<noteq> []"
      by simp
    then show ?thesis by blast
  next
    case (Some q)
    with Cons.prems have m: "m = acc @ [c]" and p: "p = q"
      by (simp_all split: if_splits)
    from Some obtain r where r: "cs = '';base64,'' @ r"
      using match_tail_Some by blast
    have "q \<noteq> []"
      using Some unfolding match_tail_def by (auto split: option.splits list.splits)
    then have "[c] \<noteq> [] \<and> m = acc @ [c] \<and> c # cs = [c] @ '';base64,'' @ r \<and> p \<noteq> []"
      using m p r by simp
    then show ?thesis by blast
  qed
qed

lemma re_match_Some:
  assumes "re_match url = Some (m, p)"
  shows "\<exists>sub r. sub \<noteq> [] \<and> m = ''image/'' @ sub
           \<and> url = ''data:'' @ (''image/'' @ sub) @ '';base64,'' @ r \<and> p \<noteq> []"
proof -
  from assms obtain rest sub' where
    sp: "strip_prefix ''data:image/'' url = Some rest"
    and ml: "match_lazy [] rest = Some (sub', p)" and m: "m = ''image/'' @ sub'"
    unfolding re_match_def by (auto split: option.splits)
  from match_lazy_Some [OF ml] obtain sub r where
    "sub \<noteq> []" "sub' = sub" "rest = sub @ '';base64,'' @ r" "p \<noteq> []"
    by auto
  moreover from sp have "url = ''data:image/'' @ rest" by (simp add: strip_prefix_Some)
  ultimately show ?thesis using m by auto
qed

lemma re_match_not_spec: "\<not> spec_data_url url \<Longrightarrow> re_match url = None"
proof (rule ccontr)
  assume ns: "\<not> spec_data_url url" and "re_match url \<noteq> None"
  then obtain m p where "re_match url = Some (m, p)" by auto
  from re_match_Some [OF this] have "spec_data_url url"
    unfolding spec_data_url_def by blast
  with ns show False by simp
qed

section \<open>Claims about \<^verbatim>\<open>base64_to_blob\<close>\<close>

text \<open>
  C3 (as amended). For every byte sequence but the empty one, and every mime type
  \<^verbatim>\<open>image/<subtype>\<close> whose subtype is not empty, has no newline and has no
  \<^verbatim>\<open>;base64,\<close> after its first character, decoding the data URL built with the
  standard base64 encoding gives the mime type and the bytes back.
\<close>

theorem data_url_round_trip:
  assumes "b \<noteq> []" and "sub \<noteq> []" and "CHR 0x0A \<notin> set sub"
    and "\<not> (\<exists>u v. u \<noteq> [] \<and> sub = u @ '';base64,'' @ v)"
  shows "base64_to_blob (data_url (''image/'' @ sub) b)
           = Inr \<lparr>mime_type = ''image/'' @ sub, data = b\<rparr>"
proof -
  have dots: "\<forall>c \<in> set sub. dot c" using assms(3) by (auto simp add: dot_def)
  have pay: "b64encode b \<noteq> []" "\<forall>c \<in> set (b64encode b). dot c"
    using b64encode_nonempty [OF assms(1)] b64encode_chars by auto
  have "re_match (data_url (''image/'' @ sub) b) = Some (''image/'' @ sub, b64encode b)"
    unfolding data_url_def by (rule re_match_data_url [OF assms(2) dots assms(4) pay])
  then show ?thesis by (simp add: base64_to_blob_def b64decode_b64encode)
qed

theorem data_url_round_trip_witness:
  "base64_to_blob (data_url (''image/'' @ ''png'') [77, 97, 110, 255])
     = Inr \<lparr>mime_type = ''image/'' @ ''png'', data = [77, 97, 110, 255]\<rparr>"
proof -
  have "\<not> (\<exists>u v. u \<noteq> [] \<and> ''png'' = u @ '';base64,'' @ v)"
  proof
    assume "\<exists>u v. u \<noteq> [] \<and> ''png'' = u @ '';base64,'' @ v"
    then obtain u v where "''png'' = u @ '';base64,'' @ v" by blast
    then have "length ''png'' = length (u @ '';base64,'' @ v)" by (rule arg_cong)
    then show False by simp
  qed
  then show ?thesis
    using data_url_round_trip [of "[77, 97, 110, 255]" "''png''"] by simp
qed

text \<open>
  C3 as stated fails for the empty byte sequence: its data URL has an empty payload,
  which the pattern does not match.
\<close>

theorem data_url_round_trip_counterexample:
  "base64_to_blob (data_url ''image/png'' [])
     \<noteq> Inr \<lparr>mime_type = ''image/png'', data = []\<rparr>"
  by (simp add: base64_to_blob_def data_url_def re_match_def match_tail_def dot_def)

text \<open>
  C10. The data URL with an empty payload raises the error for an invalid format, and so
  does a mime type \<^verbatim>\<open>image/\<close> without a subtype: no match has an empty payload or
  the mime type \<^verbatim>\<open>image/\<close>, and no blob that is returned has that mime type.
\<close>

theorem empty_payload_and_subtype_rejected:
  "base64_to_blob ''data:image/png;base64,'' = Inl (ValueError ''Invalid data URL format.'')
   \<and> base64_to_blob ''data:image/;base64,AAAA'' = Inl (ValueError ''Invalid data URL format.'')
   \<and> (\<forall>url m p. re_match url = Some (m, p) \<longrightarrow> p \<noteq> [] \<and> m \<noteq> ''image/'')
   \<and> (\<forall>url blob. base64_to_blob url = Inr blob \<longrightarrow> mime_type blob \<noteq> ''image/'')"
proof (intro conjI allI impI)
  show "base64_to_blob ''data:image/png;base64,'' = Inl (ValueError ''Invalid data URL format.'')"
    by (simp add: base64_to_blob_def re_match_def match_tail_def dot_def)
  show "base64_to_blob ''data:image/;base64,AAAA'' = Inl (ValueError ''Invalid data URL format.'')"
    by (simp add: base64_to_blob_def re_match_def match_tail_def dot_def)
next
  fix url m p assume "re_match url = Some (m, p)"
  from re_match_Some [OF this] show "p \<noteq> []" and "m \<noteq> ''image/''" by auto
next
  fix url blob assume "base64_to_blob url = Inr blob"
  then obtain m p where "re_match url = Some (m, p)" and "mime_type blob = m"
    unfolding base64_to_blob_def by (auto split: option.splits sum.splits)
  with re_match_Some [of url m p] show "mime_type blob \<noteq> ''image/''" by auto
qed

theorem empty_payload_and_subtype_rejected_witness:
  "re_match ''data:image/png;base64,TWE='' = Some (''image/png'', ''TWE='')
   \<and> ''TWE='' \<noteq> [] \<and> ''image/png'' \<noteq> ''image/''
   \<and> base64_to_blob ''data:image/png;base64,TWE='' = Inr \<lparr>mime_type = ''image/png'', data = [77, 97]\<rparr>
   \<and> mime_type \<lparr>mime_type = ''image/png'', data = [77, 97 :: byte]\<rparr> \<noteq> ''image/''"
proof -
  have m: "re_match ''data:image/png;base64,TWE='' = Some (''image/png'', ''TWE='')"
    by (simp add: re_match_def match_tail_def dot_def)
  have b: "base64_to_blob ''data:image/png;base64,TWE=''
             = Inr \<lparr>mime_type = ''image/png'', data = [77, 97]\<rparr>"
    by (simp add: base64_to_blob_def m b64decode_def table_a2b_base64_def)
  from empty_payload_and_subtype_rejected m b show ?thesis by blast
qed


section \<open>Claims about \<^verbatim>\<open>process_messages\<close>\<close>

lemma process_parts_append:
  "process_parts (xs @ ys) pc =
     (case process_parts xs pc of Inl e \<Rightarrow> Inl e | Inr pc' \<Rightarrow> process_parts ys pc')"
  by (induction xs arbitrary: pc) (auto split: option.splits sum.splits)

lemma process_message_list_append:
  "process_message_list f (xs @ ys) pc =
     (case process_message_list f xs pc of
        Inl e \<Rightarrow> Inl e
      | Inr pc' \<Rightarrow> process_message_list f ys pc')"
  by (induction xs arbitrary: pc) (auto split: option.splits sum.splits content.splits)

lemma process_parts_text:
  "list_all text_part ps \<Longrightarrow>
     process_parts ps pc = Inr (pc @ concat (map part_entries ps))"
  by (induction ps arbitrary: pc)
     (auto simp add: text_part_def part_entries_def split: option.splits)

lemma process_message_list_text:
  "list_all text_only ms \<Longrightarrow>
     process_message_list f ms pc = Inr (pc @ concat (map flat_entries ms))"
proof (induction ms arbitrary: pc)
  case Nil
  then show ?case by simp
next
  case (Cons m ms)
  then have m: "text_only m" and ms: "list_all text_only ms" by simp_all
  show ?case
  proof (cases "content m")
    case None
    with m show ?thesis by (simp add: text_only_def)
  next
    case (Some c)
    show ?thesis
    proof (cases c)
      case (Str x)
      with m Some have "role m = ''system''" by (simp add: text_only_def)
      then show ?thesis
        using Some Str Cons.IH [OF ms] by (simp add: flat_entries_def format_content_def)
    next
      case (Parts ps)
      with m Some have r: "role m \<noteq> ''system''" and t: "list_all text_part ps"
        by (simp_all add: text_only_def)
      show ?thesis
        using Some Parts r process_parts_text [OF t] Cons.IH [OF ms]
        by (simp add: flat_entries_def)
    qed
  qed
qed

text \<open>
  C2. For a list of messages with plain text only, the translation is the flattening of
  the messages in their order: a system message with the string \<open>X\<close> gives the one
  element \<^verbatim>\<open>Your general instruction: X\<close>, every text part of another message gives
  its text, in the order of the parts.
\<close>

theorem translate_text_only:
  "list_all text_only ms \<Longrightarrow>
     process_messages str_of (Listed ms) = Inr (concat (map flat_entries ms))"
  by (simp add: process_messages_def process_message_list_text)

theorem translate_text_only_witness:
  "list_all text_only
     [\<lparr>role = ''system'', content = Some (Str ''X'')\<rparr>,
      \<lparr>role = ''user'', content = Some (Parts
         [\<lparr>part_type = Some ''text'', part_text = Some ''a'', part_image_url = None\<rparr>,
          \<lparr>part_type = Some ''text'', part_text = Some ''b'', part_image_url = None\<rparr>])\<rparr>]
   \<and> process_messages (\<lambda>ps. [])
     (Listed [\<lparr>role = ''system'', content = Some (Str ''X'')\<rparr>,
      \<lparr>role = ''user'', content = Some (Parts
         [\<lparr>part_type = Some ''text'', part_text = Some ''a'', part_image_url = None\<rparr>,
          \<lparr>part_type = Some ''text'', part_text = Some ''b'', part_image_url = None\<rparr>])\<rparr>])
     = Inr [PText ''Your general instruction: X'', PText ''a'', PText ''b'']"
proof -
  let ?ms = "[\<lparr>role = ''system'', content = Some (Str ''X'')\<rparr>,
      \<lparr>role = ''user'', content = Some (Parts
         [\<lparr>part_type = Some ''text'', part_text = Some ''a'', part_image_url = None\<rparr>,
          \<lparr>part_type = Some ''text'', part_text = Some ''b'', part_image_url = None\<rparr>])\<rparr>]"
  have h: "list_all text_only ?ms" by (simp add: text_only_def text_part_def)
  from translate_text_only [OF h, of "\<lambda>ps. []"] h show ?thesis
    by (simp add: flat_entries_def part_entries_def)
qed

lemma process_parts_skip:
  "other_part p \<Longrightarrow> process_parts (p # ps) pc = process_parts ps pc"
  by (auto simp add: other_part_def split: option.splits)

lemma process_parts_filter:
  "process_parts (filter (\<lambda>p. \<not> other_part p) ps) pc = process_parts ps pc"
proof (induction ps arbitrary: pc)
  case Nil
  then show ?case by simp
next
  case (Cons p ps)
  show ?case
  proof (cases "other_part p")
    case True
    then show ?thesis using Cons.IH by (simp add: process_parts_skip del: process_parts.simps)
  next
    case False
    then show ?thesis using Cons.IH by (simp split: option.splits sum.splits)
  qed
qed

lemma process_message_list_step:
  assumes "\<And>pc. process_message_list f xs pc = process_message_list f ys pc"
  shows "process_message_list f (without_other_parts m # xs) pc
           = process_message_list f (m # ys) pc"
proof (cases "role m = ''system''")
  case True
  then show ?thesis using assms by (simp add: without_other_parts_def split: option.splits)
next
  case False
  show ?thesis
  proof (cases "content m")
    case None
    then show ?thesis using False by (simp add: without_other_parts_def)
  next
    case (Some c)
    then show ?thesis using False assms
      by (cases c) (simp_all add: without_other_parts_def process_parts_filter split: sum.splits)
  qed
qed

lemma process_message_list_filter:
  "process_message_list f (map without_other_parts ms) pc = process_message_list f ms pc"
proof (induction ms arbitrary: pc)
  case Nil
  then show ?case by simp
next
  case (Cons m ms)
  show ?case
    unfolding list.map by (rule process_message_list_step) (rule Cons.IH)
qed

text \<open>
  C8. In a message that is not a system message, a part whose type is neither
  \<^verbatim>\<open>text\<close> nor \<^verbatim>\<open>image_url\<close> gives no element and raises no error: the loop goes on
  with the next part, and the translation is the translation of the messages without
  such parts.
\<close>

theorem other_parts_skipped:
  "(other_part p \<longrightarrow> process_parts (p # ps) pc = process_parts ps pc)
   \<and> process_messages str_of (Listed (map without_other_parts ms))
       = process_messages str_of (Listed ms)"
  by (simp add: process_messages_def process_message_list_filter process_parts_skip
        del: process_parts.simps)


theorem other_parts_skipped_witness:
  "other_part \<lparr>part_type = Some ''audio'', part_text = None, part_image_url = None\<rparr>
   \<and> process_parts
        [\<lparr>part_type = Some ''audio'', part_text = None, part_image_url = None\<rparr>,
         \<lparr>part_type = Some ''text'', part_text = Some ''a'', part_image_url = None\<rparr>] []
       = Inr [PText ''a'']
   \<and> process_messages (\<lambda>ps. [])
        (Listed [\<lparr>role = ''user'', content = Some (Parts
           [\<lparr>part_type = Some ''audio'', part_text = None, part_image_url = None\<rparr>,
            \<lparr>part_type = Some ''text'', part_text = Some ''a'', part_image_url = None\<rparr>])\<rparr>])
       = Inr [PText ''a'']"
proof -
  let ?p = "\<lparr>part_type = Some ''audio'', part_text = None, part_image_url = None\<rparr>"
  let ?q = "\<lparr>part_type = Some ''text'', part_text = Some ''a'', part_image_url = None\<rparr>"
  let ?m = "\<lparr>role = ''user'', content = Some (Parts [?p, ?q])\<rparr>"
  have o: "other_part ?p" by (simp add: other_part_def)
  have q: "process_parts [?q] [] = Inr [PText ''a'']" by simp
  have w: "map without_other_parts [?m] = [\<lparr>role = ''user'', content = Some (Parts [?q])\<rparr>]"
    by (simp add: without_other_parts_def other_part_def)
  have r: "process_messages (\<lambda>ps. []) (Listed [\<lparr>role = ''user'', content = Some (Parts [?q])\<rparr>])
             = Inr [PText ''a'']"
    by (simp add: process_messages_def)
  note t = other_parts_skipped [of ?p "[?q]" "[]" "\<lambda>ps. []" "[?m]"]
  from t [THEN conjunct1, rule_format, OF o] q
  have 1: "process_parts [?p, ?q] [] = Inr [PText ''a'']" by (simp del: process_parts.simps)
  from t [THEN conjunct2] w r
  have 2: "process_messages (\<lambda>ps. []) (Listed [?m]) = Inr [PText ''a'']"
    by (simp del: process_parts.simps)
  from o 1 2 show ?thesis by blast
qed

text \<open>
  C4. An image part whose URL is not of the form
  \<^verbatim>\<open>data:<mime-type>;base64,<payload>\<close> with a mime type starting with \<^verbatim>\<open>image/\<close>
  makes \<^verbatim>\<open>base64_to_blob\<close> raise the \<^verbatim>\<open>ValueError\<close> for an invalid data URL. When
  the translation reaches the part (the messages and parts before it are translated
  without an error), that error is the result of \<^verbatim>\<open>process_messages\<close> and of
  \<^verbatim>\<open>chat_completion\<close>: the part is not skipped.
\<close>

theorem invalid_data_url_raises:
  assumes "\<not> spec_data_url url"
    and "part_type p = Some ''image_url''" and "part_image_url p = Some url"
    and "role m \<noteq> ''system''" and "content m = Some (Parts (ps1 @ p # ps2))"
    and "process_message_list str_of pre [] = Inr pc" and "process_parts ps1 pc = Inr pc'"
  shows "base64_to_blob url = Inl (ValueError ''Invalid data URL format.'')
    \<and> process_messages str_of (Listed (pre @ m # post))
        = Inl (ValueError ''Invalid data URL format.'')
    \<and> chat_completion str_of self (Listed (pre @ m # post)) n temperature_arg max_tokens
          top_p_arg kwargs
        = Inl (ValueError ''Invalid data URL format.'')"
proof -
  have b: "base64_to_blob url = Inl (ValueError ''Invalid data URL format.'')"
    using assms(1) by (simp add: base64_to_blob_def re_match_not_spec)
  have "process_parts (p # ps2) pc' = Inl (ValueError ''Invalid data URL format.'')"
    using assms(2,3) b by simp
  then have "process_parts (ps1 @ p # ps2) pc = Inl (ValueError ''Invalid data URL format.'')"
    using assms(7) by (simp add: process_parts_append del: process_parts.simps)
  then have "process_message_list str_of (m # post) pc
               = Inl (ValueError ''Invalid data URL format.'')"
    using assms(4,5) by simp
  then have t: "process_messages str_of (Listed (pre @ m # post))
               = Inl (ValueError ''Invalid data URL format.'')"
    using assms(6)
    by (simp add: process_messages_def process_message_list_append
             del: process_message_list.simps)
  from b t show ?thesis by (simp add: chat_completion_def)
qed

theorem invalid_data_url_raises_witness:
  "\<not> spec_data_url ''data:text/plain;base64,AAAA''
   \<and> base64_to_blob ''data:text/plain;base64,AAAA''
        = Inl (ValueError ''Invalid data URL format.'')
   \<and> process_messages (\<lambda>ps. [])
        (Listed ([\<lparr>role = ''system'', content = Some (Str ''X'')\<rparr>] @
           \<lparr>role = ''user'', content = Some (Parts
             ([\<lparr>part_type = Some ''text'', part_text = Some ''a'', part_image_url = None\<rparr>] @
               \<lparr>part_type = Some ''image_url'', part_text = None,
                 part_image_url = Some ''data:text/plain;base64,AAAA''\<rparr> # []))\<rparr> # []))
        = Inl (ValueError ''Invalid data URL format.'')"
proof -
  let ?url = "''data:text/plain;base64,AAAA''"
  let ?p = "\<lparr>part_type = Some ''image_url'', part_text = None, part_image_url = Some ?url\<rparr>"
  let ?q = "\<lparr>part_type = Some ''text'', part_text = Some ''a'', part_image_url = None\<rparr>"
  let ?m = "\<lparr>role = ''user'', content = Some (Parts ([?q] @ ?p # []))\<rparr>"
  let ?s = "\<lparr>role = ''system'', content = Some (Str ''X'')\<rparr>"
  have h1: "\<not> spec_data_url ?url" by (simp add: spec_data_url_def)
  have h2: "part_type ?p = Some ''image_url''" by simp
  have h3: "part_image_url ?p = Some ?url" by simp
  have h4: "role ?m \<noteq> ''system''" by simp
  have h5: "content ?m = Some (Parts ([?q] @ ?p # []))" by simp
  have h6: "process_message_list (\<lambda>ps. []) [?s] [] = Inr [PText ''Your general instruction: X'']"
    by (simp add: format_content_def)
  have h7: "process_parts [?q] [PText ''Your general instruction: X'']
              = Inr [PText ''Your general instruction: X'', PText ''a'']"
    by simp
  note t = invalid_data_url_raises [OF h1 h2 h3 h4 h5 h6 h7, where post = "[]"]
  show ?thesis
    by (intro conjI) (rule h1, rule t [THEN conjunct1], rule t [THEN conjunct2, THEN conjunct1])
qed

section \<open>Claims about \<^verbatim>\<open>get_text_from_all_candidates\<close>\<close>


lemma scan_parts_returns:
  "list_all (\<lambda>p. p \<noteq> None) ps \<Longrightarrow> \<exists>res. scan_parts ps candidate_text found names = Inr res"
proof (induction ps arbitrary: candidate_text found names)
  case Nil
  then show ?case by simp
next
  case (Cons p ps)
  then obtain q where q: "p = Some q" and rest: "list_all (\<lambda>p. p \<noteq> None) ps" by auto
  show ?case
    unfolding q using Cons.IH [OF rest] by (simp add: Let_def split: option.splits)
qed

lemma scan_parts_raises:
  "\<not> list_all (\<lambda>p. p \<noteq> None) ps \<Longrightarrow>
     scan_parts ps candidate_text found names = Inl AttributeError"
proof (induction ps arbitrary: candidate_text found names)
  case Nil
  then show ?case by simp
next
  case (Cons p ps)
  show ?case
  proof (cases p)
    case None
    then show ?thesis by simp
  next
    case (Some q)
    with Cons.prems have "\<not> list_all (\<lambda>p. p \<noteq> None) ps" by simp
    from Cons.IH [OF this] show ?thesis
      unfolding Some by (simp add: Let_def split: option.splits)
  qed
qed

lemma candidate_result_malformed: "malformed c \<Longrightarrow> candidate_result c = Inr None"
  by (auto simp add: malformed_def candidate_result_def split: option.splits attribute.splits)

lemma candidate_result_returns:
  assumes "iterable_parts c"
  shows "\<exists>entry. candidate_result c = Inr entry"
proof (cases "malformed c")
  case True
  then show ?thesis by (simp add: candidate_result_malformed)
next
  case False
  then obtain cand cc where c: "c = Some cand" "content_attr cand = Value cc"
    by (auto simp add: malformed_def split: option.splits attribute.splits)
  from False c assms obtain ps where ps: "parts cc = Value ps" "list_all (\<lambda>p. p \<noteq> None) ps"
    by (cases "parts cc") (auto simp add: malformed_def iterable_parts_def)
  from scan_parts_returns [OF ps(2)] obtain res where "scan_parts ps [] False [] = Inr res"
    by blast
  then show ?thesis
    using c ps(1) by (cases res) (simp add: candidate_result_def)
qed

lemma candidate_result_raises:
  assumes "\<not> iterable_parts c"
  shows "\<exists>e. candidate_result c = Inl e"
proof -
  from assms obtain cand cc where c: "c = Some cand" "content_attr cand = Value cc"
    by (auto simp add: iterable_parts_def split: option.splits attribute.splits)
  show ?thesis
  proof (cases "parts cc")
    case NoAttr
    with assms c show ?thesis by (simp add: iterable_parts_def)
  next
    case NoneValue
    with c show ?thesis by (simp add: candidate_result_def)
  next
    case (Value ps)
    with assms c have "\<not> list_all (\<lambda>p. p \<noteq> None) ps" by (simp add: iterable_parts_def)
    from scan_parts_raises [OF this] show ?thesis
      using c Value by (simp add: candidate_result_def)
  qed
qed

lemma candidates_loop_returns:
  assumes "list_all iterable_parts cs"
  shows "\<exists>texts. candidates_loop cs all_texts = Inr (all_texts @ texts)
           \<and> length texts = length cs
           \<and> (\<forall>i < length cs. malformed (cs ! i) \<longrightarrow> texts ! i = None)"
  using assms
proof (induction cs arbitrary: all_texts)
  case Nil
  then show ?case by simp
next
  case (Cons c cs)
  then have c: "iterable_parts c" and cs: "list_all iterable_parts cs" by simp_all
  from candidate_result_returns [OF c] obtain entry where e: "candidate_result c = Inr entry"
    by blast
  have m: "malformed c \<Longrightarrow> entry = None"
    using e by (simp add: candidate_result_malformed)
  from Cons.IH [OF cs, of "all_texts @ [entry]"] obtain texts where
    t: "candidates_loop cs (all_texts @ [entry]) = Inr ((all_texts @ [entry]) @ texts)"
    and len: "length texts = length cs"
    and mal: "\<forall>i < length cs. malformed (cs ! i) \<longrightarrow> texts ! i = None"
    by blast
  have 1: "candidates_loop (c # cs) all_texts = Inr (all_texts @ (entry # texts))"
    using e t by simp
  have 2: "length (entry # texts) = length (c # cs)" using len by simp
  have 3: "\<forall>i < length (c # cs). malformed ((c # cs) ! i) \<longrightarrow> (entry # texts) ! i = None"
  proof (intro allI impI)
    fix i assume i: "i < length (c # cs)" and mi: "malformed ((c # cs) ! i)"
    show "(entry # texts) ! i = None"
    proof (cases i)
      case 0
      with mi m show ?thesis by simp
    next
      case (Suc j)
      with i mi mal show ?thesis by simp
    qed
  qed
  from 1 2 3 show ?case by blast
qed

lemma candidates_loop_raises:
  "\<not> list_all iterable_parts cs \<Longrightarrow> \<exists>e. candidates_loop cs all_texts = Inl e"
proof (induction cs arbitrary: all_texts)
  case Nil
  then show ?case by simp
next
  case (Cons c cs)
  show ?case
  proof (cases "iterable_parts c")
    case False
    from candidate_result_raises [OF this] show ?thesis by auto
  next
    case True
    from candidate_result_returns [OF True] obtain entry where e: "candidate_result c = Inr entry"
      by blast
    from True Cons.prems have "\<not> list_all iterable_parts cs" by simp
    from Cons.IH [OF this, of "all_texts @ [entry]"] show ?thesis using e by simp
  qed
qed

text \<open>
  The extraction raises exactly when the attribute \<^verbatim>\<open>candidates\<close> is there but is not
  a list, or a candidate has parts that cannot be iterated.
\<close>

lemma extract_raises_iff:
  "(\<exists>e. get_text_from_all_candidates resp = Inl e) \<longleftrightarrow>
     (\<exists>r. resp = Some r \<and>
        (candidates r = NoneValue
         \<or> (\<exists>cs. candidates r = Value cs \<and> \<not> list_all iterable_parts cs)))"
proof (cases resp)
  case None
  then show ?thesis by (simp add: get_text_from_all_candidates_def)
next
  case (Some r)
  show ?thesis
  proof (cases "candidates r")
    case NoAttr
    with Some show ?thesis by (simp add: get_text_from_all_candidates_def)
  next
    case NoneValue
    with Some show ?thesis by (simp add: get_text_from_all_candidates_def)
  next
    case (Value cs)
    show ?thesis
    proof (cases "list_all iterable_parts cs")
      case True
      from candidates_loop_returns [OF True, of "[]"] show ?thesis
        using Some Value True by (auto simp add: get_text_from_all_candidates_def)
    next
      case False
      from candidates_loop_raises [OF False, of "[]"] show ?thesis
        using Some Value False by (auto simp add: get_text_from_all_candidates_def)
    qed
  qed
qed

text \<open>
  C5 (as amended). For every response whose attribute \<^verbatim>\<open>candidates\<close>, when it is
  there, is a list of candidates whose parts can be iterated, the extraction returns a
  list. Without a response, or without the attribute \<^verbatim>\<open>candidates\<close>, the list is
  empty. Otherwise it has one entry for each candidate, and the entry of a candidate
  that is absent or lacks the nested content and parts is the absence marker.
\<close>

theorem extract_total:
  "get_text_from_all_candidates None = Inr []
   \<and> (candidates r = NoAttr \<longrightarrow> get_text_from_all_candidates (Some r) = Inr [])
   \<and> (candidates r = Value cs \<and> list_all iterable_parts cs \<longrightarrow>
        (\<exists>texts. get_text_from_all_candidates (Some r) = Inr texts
           \<and> length texts = length cs
           \<and> (\<forall>i < length cs. malformed (cs ! i) \<longrightarrow> texts ! i = None)))"
proof (intro conjI impI)
  show "get_text_from_all_candidates None = Inr []"
    by (simp add: get_text_from_all_candidates_def)
  show "get_text_from_all_candidates (Some r) = Inr []" if "candidates r = NoAttr"
    using that by (simp add: get_text_from_all_candidates_def)
  show "\<exists>texts. get_text_from_all_candidates (Some r) = Inr texts
           \<and> length texts = length cs
           \<and> (\<forall>i < length cs. malformed (cs ! i) \<longrightarrow> texts ! i = None)"
    if h: "candidates r = Value cs \<and> list_all iterable_parts cs"
  proof -
    from h have c: "candidates r = Value cs" and w: "list_all iterable_parts cs" by simp_all
    from candidates_loop_returns [OF w, of "[]"] show ?thesis
      using c by (simp add: get_text_from_all_candidates_def)
  qed
qed

theorem extract_total_witness:
  "candidates \<lparr>candidates = NoAttr, text_accessor = Inr []\<rparr> = NoAttr
   \<and> get_text_from_all_candidates (Some \<lparr>candidates = NoAttr, text_accessor = Inr []\<rparr>) = Inr []
   \<and> list_all iterable_parts
        [None, Some \<lparr>content_attr = NoAttr\<rparr>,
         Some \<lparr>content_attr = Value \<lparr>parts = Value
           [Some \<lparr>dict_items = [(''text'', True)], text_attr = Some ''hi'', thought = False\<rparr>]\<rparr>\<rparr>]
   \<and> malformed ([None, Some \<lparr>content_attr = NoAttr\<rparr>] ! 1)
   \<and> get_text_from_all_candidates (Some \<lparr>candidates = Value
         [None, Some \<lparr>content_attr = NoAttr\<rparr>,
          Some \<lparr>content_attr = Value \<lparr>parts = Value
            [Some \<lparr>dict_items = [(''text'', True)], text_attr = Some ''hi'', thought = False\<rparr>]\<rparr>\<rparr>],
         text_accessor = Inr ''hi''\<rparr>) = Inr [None, None, Some ''hi'']"
proof -
  let ?e = "\<lparr>candidates = NoAttr, text_accessor = Inr []\<rparr>"
  let ?cs = "[None, Some \<lparr>content_attr = NoAttr\<rparr>,
          Some \<lparr>content_attr = Value \<lparr>parts = Value
            [Some \<lparr>dict_items = [(''text'', True)], text_attr = Some ''hi'', thought = False\<rparr>]\<rparr>\<rparr>]"
  let ?r = "\<lparr>candidates = Value ?cs, text_accessor = Inr ''hi''\<rparr>"
  have c0: "candidates ?e = NoAttr" by simp
  have c: "candidates ?r = Value ?cs \<and> list_all iterable_parts ?cs"
    by (simp add: iterable_parts_def)
  have m0: "malformed (?cs ! 0)" and m1: "malformed (?cs ! 1)" by (simp_all add: malformed_def)
  have e0: "get_text_from_all_candidates (Some ?e) = Inr []"
    by (rule extract_total [of ?e, THEN conjunct2, THEN conjunct1, rule_format, OF c0])
  from extract_total [of ?r ?cs, THEN conjunct2, THEN conjunct2, rule_format, OF c]
  obtain texts where t: "get_text_from_all_candidates (Some ?r) = Inr texts"
    and len: "length texts = 3"
    and mal: "\<forall>i < length ?cs. malformed (?cs ! i) \<longrightarrow> texts ! i = None"
    by auto
  have n0: "texts ! 0 = None" using mal [rule_format, of 0] m0 by simp
  have n1: "texts ! 1 = None" using mal [rule_format, of 1] m1 by simp
  have "get_text_from_all_candidates (Some ?r) = Inr (texts @ [])" using t by simp
  moreover have "get_text_from_all_candidates (Some ?r) = Inr [None, None, Some ''hi'']"
    by (simp add: get_text_from_all_candidates_def candidate_result_def)
  ultimately have "texts = [None, None, Some ''hi'']" by simp
  with t c c0 e0 m1 n0 n1 show ?thesis by simp
qed

text \<open>
  C5 as stated fails for a response whose attribute \<^verbatim>\<open>candidates\<close> is \<^verbatim>\<open>None\<close>: the
  test of line 151 passes and line 155 raises \<^verbatim>\<open>TypeError\<close>.
\<close>

theorem extract_total_counterexample:
  "get_text_from_all_candidates (Some \<lparr>candidates = NoneValue, text_accessor = Inr []\<rparr>)
     = Inl TypeError"
  by (simp add: get_text_from_all_candidates_def)


section \<open>Claims about \<^verbatim>\<open>chat_completion\<close>\<close>

text \<open>What a call that returns has gone through.\<close>

lemma chat_completion_Inr:
  assumes "chat_completion str_of self msgs n temperature_arg max_tokens top_p_arg kwargs
             = Inr (results, cost)"
  shows "\<exists>gemini_messages genai_config resp.
           process_messages str_of msgs = Inr gemini_messages
           \<and> generate_content self gemini_messages genai_config = Inr resp
           \<and> (if ENABLE_COST_TRACKING (config self) = Some True
                then cost_estimate self msgs resp else Inr 0) = Inr cost
           \<and> get_text_from_all_candidates (Some resp) = Inr results"
proof -
  obtain g where g: "process_messages str_of msgs = Inr g"
    using assms by (cases "process_messages str_of msgs") (simp_all add: chat_completion_def)
  define cfg where "cfg =
     \<lparr>max_output_tokens = (case max_tokens of Some v \<Rightarrow> v | None \<Rightarrow> MAX_TOKENS (config self)),
      temperature = (case temperature_arg of Some v \<Rightarrow> v | None \<Rightarrow> TEMPERATURE (config self)),
      top_p = (case top_p_arg of Some v \<Rightarrow> v | None \<Rightarrow> TOP_P (config self))\<rparr>"
  have unf: "chat_completion str_of self msgs n temperature_arg max_tokens top_p_arg kwargs =
     (case generate_content self g cfg of
        Inl e \<Rightarrow> Inl e
      | Inr resp \<Rightarrow>
          (case (if ENABLE_COST_TRACKING (config self) = Some True
                 then cost_estimate self msgs resp else Inr 0) of
             Inl e \<Rightarrow> Inl e
           | Inr cost \<Rightarrow>
               (case get_text_from_all_candidates (Some resp) of
                  Inl e \<Rightarrow> Inl e
                | Inr texts \<Rightarrow> Inr (texts, cost))))"
    unfolding chat_completion_def g cfg_def Let_def by simp
  obtain resp where r: "generate_content self g cfg = Inr resp"
    using assms unfolding unf by (cases "generate_content self g cfg") simp_all
  let ?c = "if ENABLE_COST_TRACKING (config self) = Some True
            then cost_estimate self msgs resp else Inr 0"
  let ?t = "get_text_from_all_candidates (Some resp)"
  have eq: "(case ?c of Inl e \<Rightarrow> Inl e
         | Inr cost \<Rightarrow> (case ?t of Inl e \<Rightarrow> Inl e | Inr texts \<Rightarrow> Inr (texts, cost)))
        = Inr (results, cost)"
    using assms unfolding unf r by simp
  then obtain c' where c': "?c = Inr c'" by (cases ?c) simp_all
  from eq c' obtain texts where t: "?t = Inr texts" by (cases ?t) simp_all
  from eq c' t have "?c = Inr cost \<and> ?t = Inr results" by simp
  with g r show ?thesis by blast
qed

text \<open>
  C7. When \<^verbatim>\<open>ENABLE_COST_TRACKING\<close> is false or absent, the cost that
  \<^verbatim>\<open>chat_completion\<close> returns is 0, whatever the messages and the prices.
\<close>

theorem cost_zero_without_tracking:
  assumes "ENABLE_COST_TRACKING (config self) \<noteq> Some True"
    and "chat_completion str_of self msgs n temperature_arg max_tokens top_p_arg kwargs
           = Inr (results, cost)"
  shows "cost = 0"
  using chat_completion_Inr [OF assms(2)] assms(1) by auto

theorem cost_zero_without_tracking_witness:
  "ENABLE_COST_TRACKING (config
      \<lparr>config = \<lparr>MAX_TOKENS = 100, TEMPERATURE = 0, TOP_P = 1, ENABLE_COST_TRACKING = None,
                  MODEL_COSTS = Some [''gemini'' \<mapsto> \<lparr>input_cost = Some 3, output_cost = Some 4\<rparr>]\<rparr>,
        model_name = ''gemini'',
        generate_content = (\<lambda>contents generation_config. Inr \<lparr>candidates = Value [], text_accessor = Inr ''a b''\<rparr>)\<rparr>)
     \<noteq> Some True
   \<and> chat_completion (\<lambda>ps. [])
      \<lparr>config = \<lparr>MAX_TOKENS = 100, TEMPERATURE = 0, TOP_P = 1, ENABLE_COST_TRACKING = None,
                  MODEL_COSTS = Some [''gemini'' \<mapsto> \<lparr>input_cost = Some 3, output_cost = Some 4\<rparr>]\<rparr>,
        model_name = ''gemini'',
        generate_content = (\<lambda>contents generation_config. Inr \<lparr>candidates = Value [], text_accessor = Inr ''a b''\<rparr>)\<rparr>
      (Listed [\<lparr>role = ''system'', content = Some (Str ''one two three'')\<rparr>])
      1 None None None () = Inr ([], 0)"
proof -
  let ?self = "\<lparr>config = \<lparr>MAX_TOKENS = 100, TEMPERATURE = 0, TOP_P = 1, ENABLE_COST_TRACKING = None,
                  MODEL_COSTS = Some [''gemini'' \<mapsto> \<lparr>input_cost = Some 3, output_cost = Some 4\<rparr>]\<rparr>,
        model_name = ''gemini'',
        generate_content = (\<lambda>contents generation_config. Inr \<lparr>candidates = Value [], text_accessor = Inr ''a b''\<rparr>)\<rparr>"
  let ?msgs = "Listed [\<lparr>role = ''system'', content = Some (Str ''one two three'')\<rparr>]"
  have h: "ENABLE_COST_TRACKING (config ?self) \<noteq> Some True" by simp
  obtain results cost where
    r: "chat_completion (\<lambda>ps. []) ?self ?msgs 1 None None None () = Inr (results, cost)"
    and res: "results = []"
    by (simp add: chat_completion_def process_messages_def get_text_from_all_candidates_def)
  have "cost = 0" by (rule cost_zero_without_tracking [OF h r])
  with r res h show ?thesis by simp
qed

text \<open>
  C9. The result of \<^verbatim>\<open>chat_completion\<close> does not depend on \<open>n\<close> or on the extra
  keyword arguments: neither reaches the generation config, the request or the result.
\<close>

theorem n_is_ignored:
  "chat_completion str_of self msgs n temperature_arg max_tokens top_p_arg kwargs
     = chat_completion str_of self msgs n' temperature_arg max_tokens top_p_arg kwargs'"
  unfolding chat_completion_def by (rule refl)

lemma input_tokens_list_Inr:
  "input_tokens_list ms = Inr k \<Longrightarrow> m \<in> set ms \<Longrightarrow> content m \<noteq> Some (Parts ps)"
proof (induction ms arbitrary: k)
  case Nil
  then show ?case by simp
next
  case (Cons a ms)
  from Cons.prems(1) have a: "content a \<noteq> Some (Parts ps)"
    by (auto split: option.splits content.splits)
  from Cons.prems(1) obtain k' where "input_tokens_list ms = Inr k'"
    by (cases "input_tokens_list ms") (auto split: option.splits content.splits sum.splits)
  from Cons.IH [OF this] Cons.prems(2) a show ?case by auto
qed

text \<open>
  With cost tracking enabled, \<^verbatim>\<open>chat_completion\<close> returns only when no message has a
  list of parts as content; the cost is then the number of words of the string contents
  times the input cost plus the number of words of \<^verbatim>\<open>response.text\<close> times the output
  cost.
\<close>

lemma cost_with_tracking:
  assumes "ENABLE_COST_TRACKING (config self) = Some True"
    and "chat_completion str_of self msgs n temperature_arg max_tokens top_p_arg kwargs
           = Inr (results, cost)"
  shows "\<exists>ms k (resp :: response) t. msgs = Listed ms \<and> input_tokens_list ms = Inr k
           \<and> (\<forall>m \<in> set ms. \<forall>ps. content m \<noteq> Some (Parts ps))
           \<and> text_accessor resp = Inr t
           \<and> cost = real k * unit_cost input_cost self
                    + real (length (split t)) * unit_cost output_cost self"
proof -
  from chat_completion_Inr [OF assms(2)]
  obtain resp where "(if ENABLE_COST_TRACKING (config self) = Some True
                      then cost_estimate self msgs resp else Inr 0) = Inr cost"
    by blast
  then have c: "cost_estimate self msgs resp = Inr cost" using assms(1) by simp
  obtain k where k: "count_input_tokens msgs = Inr k"
    using c by (cases "count_input_tokens msgs") (simp_all add: cost_estimate_def)
  obtain t where t: "text_accessor resp = Inr t"
    using c k by (cases "text_accessor resp") (simp_all add: cost_estimate_def)
  have cost: "cost = real k * unit_cost input_cost self
                    + real (length (split t)) * unit_cost output_cost self"
    using c k t by (simp add: cost_estimate_def)
  from k obtain ms where ms: "msgs = Listed ms" "input_tokens_list ms = Inr k"
    by (cases msgs) (simp_all add: count_input_tokens_def)
  have nop: "\<forall>m \<in> set ms. \<forall>ps. content m \<noteq> Some (Parts ps)"
    using input_tokens_list_Inr [OF ms(2)] by blast
  have all: "msgs = Listed ms \<and> input_tokens_list ms = Inr k
           \<and> (\<forall>m \<in> set ms. \<forall>ps. content m \<noteq> Some (Parts ps))
           \<and> text_accessor resp = Inr t
           \<and> cost = real k * unit_cost input_cost self
                    + real (length (split t)) * unit_cost output_cost self"
    by (intro conjI ms t cost nop)
  show ?thesis by (intro exI) (rule all)
qed

text \<open>
  The example of the specification on a message list the cost path accepts: a system
  message of ten words and a response text of five words, at the costs 0.01 and 0.02,
  give the cost 0.2.
\<close>

lemma cost_example_system_only:
  "chat_completion (\<lambda>ps. [])
      \<lparr>config = \<lparr>MAX_TOKENS = 100, TEMPERATURE = 0, TOP_P = 1, ENABLE_COST_TRACKING = Some True,
                  MODEL_COSTS = Some [''gemini'' \<mapsto> \<lparr>input_cost = Some (1 / 100), output_cost = Some (2 / 100)\<rparr>]\<rparr>,
        model_name = ''gemini'',
        generate_content = (\<lambda>contents generation_config. Inr
          \<lparr>candidates = Value [Some \<lparr>content_attr = Value \<lparr>parts = Value
             [Some \<lparr>dict_items = [(''text'', True)], text_attr = Some ''p q r s t'', thought = False\<rparr>]\<rparr>\<rparr>],
           text_accessor = Inr ''p q r s t''\<rparr>)\<rparr>
      (Listed [\<lparr>role = ''system'', content = Some (Str ''a b c d e f g h i j'')\<rparr>])
      1 None None None () = Inr ([Some ''p q r s t''], 1 / 5)"
  by (simp add: chat_completion_def process_messages_def cost_estimate_def
        count_input_tokens_def get_text_from_all_candidates_def candidate_result_def
        unit_cost_def split_def isspace_def format_content_def)

text \<open>
  C1. The claim gives a cost for every message list. With cost tracking enabled, a
  message whose content is a list of parts makes line 84 raise \<^verbatim>\<open>AttributeError\<close>,
  after the request has been made: no cost is returned.
\<close>

theorem cost_tracking_raises_on_parts:
  "chat_completion (\<lambda>ps. [])
      \<lparr>config = \<lparr>MAX_TOKENS = 100, TEMPERATURE = 0, TOP_P = 1, ENABLE_COST_TRACKING = Some True,
                  MODEL_COSTS = Some [''gemini'' \<mapsto> \<lparr>input_cost = Some (1 / 100), output_cost = Some (2 / 100)\<rparr>]\<rparr>,
        model_name = ''gemini'',
        generate_content = (\<lambda>contents generation_config. Inr
          \<lparr>candidates = Value [Some \<lparr>content_attr = Value \<lparr>parts = Value
             [Some \<lparr>dict_items = [(''text'', True)], text_attr = Some ''hi there'', thought = False\<rparr>]\<rparr>\<rparr>],
           text_accessor = Inr ''hi there''\<rparr>)\<rparr>
      (Listed [\<lparr>role = ''user'', content = Some (Parts
         [\<lparr>part_type = Some ''text'', part_text = Some ''hello world'', part_image_url = None\<rparr>])\<rparr>])
      1 None None None () = Inl AttributeError"
  by (simp add: chat_completion_def process_messages_def cost_estimate_def count_input_tokens_def)

end
